theory Spec2Isabelle
  imports Main "HOL-Library.Multiset"
begin

section \<open>Python values and built-ins used by the scripts\<close>

text \<open>
  The two scripts \<^verbatim>\<open>hw6_asingh101.py\<close> and \<^verbatim>\<open>asingh101_hw7.py\<close> share the chunker,
  the embedding batching and the knowledge-base writer; the second adds the loader, the
  retriever and the prompt assembler. Python integers are unbounded, so they are
  \<^typ>\<open>int\<close>. Text is \<^typ>\<open>string\<close>, one \<^typ>\<open>char\<close> per code point, which covers the
  code points below 256. Exceptions are values of \<open>error\<close>, returned on the left of a sum.
\<close>

datatype error =
    ValueError
  | IndexError
  | KeyError
  | TypeError
  | FileNotFoundError
  | JSONDecodeError

text \<open>
  \<^verbatim>\<open>range(start, stop, step)\<close>: the elements for a non-zero step. A positive step counts up
  while the element is below \<open>stop\<close>, a negative step counts down while it is above.
\<close>

function range_elems :: "int \<Rightarrow> int \<Rightarrow> int \<Rightarrow> int list" where
  "range_elems i stop step =
     (if 0 < step \<and> i < stop then i # range_elems (i + step) stop step
      else if step < 0 \<and> stop < i then i # range_elems (i + step) stop step
      else [])"
  by pat_completeness auto
termination
  by (relation "measure (\<lambda>(i, stop, step). if 0 < step then nat (stop - i) else nat (i - stop))")
     auto

declare range_elems.simps [simp del]

text \<open>\<^verbatim>\<open>range\<close> raises \<^verbatim>\<open>ValueError\<close> when the step is zero.\<close>

definition py_range :: "int \<Rightarrow> int \<Rightarrow> int \<Rightarrow> error + int list" where
  "py_range start stop step =
     (if step = 0 then Inl ValueError else Inr (range_elems start stop step))"

text \<open>
  \<^verbatim>\<open>xs[lo:hi]\<close>: a negative bound counts from the end, and both bounds are clamped to
  \<open>0 .. len(xs)\<close>; the slice is empty when the bounds cross.
\<close>

definition slice_bound :: "nat \<Rightarrow> int \<Rightarrow> int" where
  "slice_bound n i = (if i < 0 then max 0 (i + int n) else min i (int n))"

definition py_slice :: "'a list \<Rightarrow> int \<Rightarrow> int \<Rightarrow> 'a list" where
  "py_slice xs lo hi =
     (let l = slice_bound (length xs) lo; h = slice_bound (length xs) hi
      in take (nat (h - l)) (drop (nat l) xs))"

text \<open>
  \<^verbatim>\<open>xs[i]\<close>: an index in \<open>-len(xs) .. -1\<close> is taken from the end, and an index
  outside \<open>-len(xs) .. len(xs) - 1\<close> raises \<^verbatim>\<open>IndexError\<close>.
\<close>

definition py_index :: "'a list \<Rightarrow> int \<Rightarrow> error + 'a" where
  "py_index xs i =
     (if 0 \<le> i \<and> i < int (length xs) then Inr (xs ! nat i)
      else if i < 0 \<and> - int (length xs) \<le> i then Inr (xs ! nat (i + int (length xs)))
      else Inl IndexError)"

text \<open>
  \<^verbatim>\<open>str.isspace\<close> on the code points below 256, and \<^verbatim>\<open>str.strip()\<close>, which removes
  the whitespace at both ends.
\<close>

definition is_space :: "char \<Rightarrow> bool" where
  "is_space c = ((of_char c :: nat) \<in> set [9, 10, 11, 12, 13, 28, 29, 30, 31, 32, 133, 160])"

definition strip :: "string \<Rightarrow> string" where
  "strip s = rev (dropWhile is_space (rev (dropWhile is_space s)))"

text \<open>\<^verbatim>\<open>enumerate(xs)\<close> as a list of (index, element) pairs.\<close>

definition enumerate_list :: "'a list \<Rightarrow> (int \<times> 'a) list" where
  "enumerate_list xs = zip (map int [0..<length xs]) xs"

section \<open>The chunker\<close>

text \<open>
  \<^verbatim>\<open>semantic_chunk(text, chunk_size, overlap)\<close>, the same in both scripts: the loop body
  appends the slice at \<open>i\<close> unless its stripped text is empty.
\<close>

definition chunk_step :: "string \<Rightarrow> int \<Rightarrow> string list \<Rightarrow> int \<Rightarrow> string list" where
  "chunk_step text chunk_size chunks i =
     (let chunk = py_slice text i (i + chunk_size)
      in if length (strip chunk) > 0 then chunks @ [chunk] else chunks)"

definition semantic_chunk :: "string \<Rightarrow> int \<Rightarrow> int \<Rightarrow> error + string list" where
  "semantic_chunk text chunk_size overlap =
     (let stride = chunk_size - overlap
      in case py_range 0 (int (length text)) stride of
           Inl e \<Rightarrow> Inl e
         | Inr offsets \<Rightarrow> Inr (foldl (chunk_step text chunk_size) [] offsets))"

text \<open>
  The same loop with the loop variable kept beside each retained chunk. The code returns
  the chunk texts only; the offsets are what the claims about the stride speak of.
\<close>

definition chunk_step_at ::
  "string \<Rightarrow> int \<Rightarrow> (int \<times> string) list \<Rightarrow> int \<Rightarrow> (int \<times> string) list" where
  "chunk_step_at text chunk_size chunks i =
     (let chunk = py_slice text i (i + chunk_size)
      in if length (strip chunk) > 0 then chunks @ [(i, chunk)] else chunks)"

definition semantic_chunk_at :: "string \<Rightarrow> int \<Rightarrow> int \<Rightarrow> error + (int \<times> string) list" where
  "semantic_chunk_at text chunk_size overlap =
     (let stride = chunk_size - overlap
      in case py_range 0 (int (length text)) stride of
           Inl e \<Rightarrow> Inl e
         | Inr offsets \<Rightarrow> Inr (foldl (chunk_step_at text chunk_size) [] offsets))"

text \<open>
  Vocabulary for the proofs about the chunker: the \<open>j\<close>-th window of the traversal, the
  number of windows \<^verbatim>\<open>range\<close> visits for a positive stride, and the windows the loop keeps.
\<close>

definition window :: "string \<Rightarrow> int \<Rightarrow> int \<Rightarrow> nat \<Rightarrow> string" where
  "window text chunk_size stride j = py_slice text (int j * stride) (int j * stride + chunk_size)"

definition window_count :: "string \<Rightarrow> int \<Rightarrow> nat" where
  "window_count text stride = nat ((int (length text) + stride - 1) div stride)"

definition kept :: "string \<Rightarrow> int \<Rightarrow> int \<Rightarrow> nat list" where
  "kept text chunk_size stride =
     filter (\<lambda>j. 0 < length (strip (window text chunk_size stride j)))
       [0..<window_count text stride]"

section \<open>Embedding in batches\<close>

text \<open>
  The embedding service is the collaborator \<open>embeddings_create\<close>: the list of inputs of one
  request to the list of the \<^verbatim>\<open>embedding\<close> fields of \<^verbatim>\<open>response.data\<close>.
  \<^verbatim>\<open>compute_embeddings\<close> sends the slices \<^verbatim>\<open>chunks[i:i + 100]\<close> for
  \<^verbatim>\<open>i in range(0, len(chunks), 100)\<close> and extends the result list with each answer.
  \<^verbatim>\<open>embed\<close> sends one text and takes \<^verbatim>\<open>data[0]\<close> of the answer.
\<close>

definition batch_size :: int where
  "batch_size = 100"

definition compute_embeddings :: "(string list \<Rightarrow> 'v list) \<Rightarrow> string list \<Rightarrow> 'v list" where
  "compute_embeddings embeddings_create chunks =
     foldl (\<lambda>embeddings i. embeddings @ embeddings_create (py_slice chunks i (i + batch_size)))
       [] (range_elems 0 (int (length chunks)) batch_size)"

definition embed :: "(string list \<Rightarrow> 'v list) \<Rightarrow> string \<Rightarrow> error + 'v" where
  "embed embeddings_create text = py_index (embeddings_create [text]) 0"

text \<open>A list comprehension whose element expression may raise: the first error wins.\<close>

fun collect :: "('a \<Rightarrow> error + 'b) \<Rightarrow> 'a list \<Rightarrow> error + 'b list" where
  "collect f [] = Inr []"
| "collect f (x # xs) =
     (case f x of
        Inl e \<Rightarrow> Inl e
      | Inr y \<Rightarrow> (case collect f xs of Inl e \<Rightarrow> Inl e | Inr ys \<Rightarrow> Inr (y # ys)))"

section \<open>The knowledge store\<close>

text \<open>
  What \<^verbatim>\<open>json.dump\<close> writes and \<^verbatim>\<open>json.load\<close> returns is a JSON-shaped Python value.
  A file is kept as the value its text parses to, or as \<open>NotJson\<close> when the text is no
  JSON document; \<^verbatim>\<open>json.load\<close> of what \<^verbatim>\<open>json.dump\<close> wrote is the value written.
  A dictionary is an association list in which the first binding of a key counts.
\<close>

datatype 'a json =
    JNull
  | JBool bool
  | JInt int
  | JFloat 'a
  | JStr string
  | JArr "'a json list"
  | JObj "(string \<times> 'a json) list"

datatype 'a file_content = NotJson | Document "'a json"

type_synonym 'a filesystem = "string \<Rightarrow> 'a file_content option"

definition CHUNK_SIZE :: int where
  "CHUNK_SIZE = 800"

definition OVERLAP :: int where
  "OVERLAP = 200"

definition EMBEDDING_MODEL :: string where
  "EMBEDDING_MODEL = ''text-embedding-3-small''"

definition OUTPUT_FILE :: string where
  "OUTPUT_FILE = ''knowledge_base.json''"

definition KNOWLEDGE_BASE_FILE :: string where
  "KNOWLEDGE_BASE_FILE = ''knowledge_base.json''"

definition TOP_K :: int where
  "TOP_K = 5"

text \<open>\<^verbatim>\<open>len(x)\<close> and \<^verbatim>\<open>x[key]\<close> with a string key, on a JSON-shaped value.\<close>

fun py_len :: "'a json \<Rightarrow> error + int" where
  "py_len (JArr xs) = Inr (int (length xs))"
| "py_len (JStr s) = Inr (int (length s))"
| "py_len (JObj kvs) = Inr (int (length (remdups (map fst kvs))))"
| "py_len _ = Inl TypeError"

fun py_getitem :: "'a json \<Rightarrow> string \<Rightarrow> error + 'a json" where
  "py_getitem (JObj kvs) key = (case map_of kvs key of None \<Rightarrow> Inl KeyError | Some v \<Rightarrow> Inr v)"
| "py_getitem _ key = Inl TypeError"

text \<open>
  \<^verbatim>\<open>save_knowledge_base(chunks, embeddings, filename)\<close> of the first script, where
  \<open>filename\<close> defaults to \<open>OUTPUT_FILE\<close>; the second script's version has no
  \<open>filename\<close> parameter and writes \<open>KNOWLEDGE_BASE_FILE\<close>. The metadata is built from
  the module constants and \<^verbatim>\<open>len(chunks)\<close>; opening the file for writing is taken to
  succeed.
\<close>

definition save_knowledge_base ::
  "'a json \<Rightarrow> 'a json \<Rightarrow> string \<Rightarrow> 'a filesystem \<Rightarrow> error + 'a filesystem" where
  "save_knowledge_base chunks embeddings filename fs =
     (case py_len chunks of
        Inl e \<Rightarrow> Inl e
      | Inr n \<Rightarrow>
          Inr (fs(filename \<mapsto> Document (JObj
            [(''chunks'', chunks),
             (''embeddings'', embeddings),
             (''metadata'', JObj
                [(''chunk_size'', JInt CHUNK_SIZE),
                 (''overlap'', JInt OVERLAP),
                 (''embedding_model'', JStr EMBEDDING_MODEL),
                 (''num_chunks'', JInt n)])]))))"

definition save_knowledge_base_hw7 ::
  "'a json \<Rightarrow> 'a json \<Rightarrow> 'a filesystem \<Rightarrow> error + 'a filesystem" where
  "save_knowledge_base_hw7 chunks embeddings fs =
     save_knowledge_base chunks embeddings KNOWLEDGE_BASE_FILE fs"

text \<open>\<^verbatim>\<open>with open(path, 'r') as f: data = json.load(f)\<close>.\<close>

definition read_json :: "'a filesystem \<Rightarrow> string \<Rightarrow> error + 'a json" where
  "read_json fs path =
     (case fs path of
        None \<Rightarrow> Inl FileNotFoundError
      | Some NotJson \<Rightarrow> Inl JSONDecodeError
      | Some (Document data) \<Rightarrow> Inr data)"

definition load_knowledge_base :: "'a filesystem \<Rightarrow> error + ('a json \<times> 'a json)" where
  "load_knowledge_base fs =
     (case read_json fs KNOWLEDGE_BASE_FILE of
        Inl e \<Rightarrow> Inl e
      | Inr data \<Rightarrow>
          (case py_getitem data ''chunks'' of
             Inl e \<Rightarrow> Inl e
           | Inr chunks \<Rightarrow>
               (case py_getitem data ''embeddings'' of
                  Inl e \<Rightarrow> Inl e
                | Inr embeddings \<Rightarrow> Inr (chunks, embeddings))))"

section \<open>The retriever\<close>

text \<open>
  The scores are Python floats. They are modelled in an ordered ring, which keeps the
  order of the comparisons and leaves rounding and NaN out. \<^verbatim>\<open>sum\<close> adds from the left,
  starting at 0; \<^verbatim>\<open>zip\<close> stops at the shorter vector.
\<close>

definition dot_product :: "'a::linordered_idom list \<Rightarrow> 'a list \<Rightarrow> 'a" where
  "dot_product v1 v2 = foldl (+) 0 (map (\<lambda>(a, b). a * b) (zip v1 v2))"

text \<open>
  \<^verbatim>\<open>xs.sort(key=f, reverse=True)\<close>: the list is reversed, sorted stably in ascending
  order of the key, and reversed again, so equal keys keep their order.
\<close>

definition py_sort_desc :: "('b \<Rightarrow> 'k::linorder) \<Rightarrow> 'b list \<Rightarrow> 'b list" where
  "py_sort_desc key xs = rev (sort_key key (rev xs))"

definition retrieve_relevant_chunks ::
  "'a::linordered_idom list \<Rightarrow> 'a list list \<Rightarrow> string list \<Rightarrow> int
     \<Rightarrow> error + ((string \<times> 'a) list \<times> int list)" where
  "retrieve_relevant_chunks query_embedding chunk_embeddings chunks k =
     (let similarities = map (dot_product query_embedding) chunk_embeddings;
          indexed_similarities = py_sort_desc snd (enumerate_list similarities);
          topk_indices = map fst (py_slice indexed_similarities 0 k)
      in case collect
                (\<lambda>i. case py_index chunks i of
                        Inl e \<Rightarrow> Inl e
                      | Inr c \<Rightarrow>
                          (case py_index similarities i of
                             Inl e \<Rightarrow> Inl e
                           | Inr s \<Rightarrow> Inr (c, s)))
                topk_indices of
           Inl e \<Rightarrow> Inl e
         | Inr retrieved_chunks \<Rightarrow> Inr (retrieved_chunks, topk_indices))"

text \<open>
  Vocabulary for the proofs about the retriever: the chunk indices in the order of
  \<open>indexed_similarities\<close> after the sort.
\<close>

definition ranking :: "'a::linordered_idom list \<Rightarrow> 'a list list \<Rightarrow> int list" where
  "ranking q embs = map fst (py_sort_desc snd (enumerate_list (map (dot_product q) embs)))"

section \<open>The prompt assembler\<close>

definition newline :: char where
  "newline = CHR 0x0A"

definition dquote :: char where
  "dquote = CHR 0x22"

text \<open>\<^verbatim>\<open>str(i)\<close> of an integer, as the f-string formats the loop counter.\<close>

fun str_nat :: "nat \<Rightarrow> string" where
  "str_nat n =
     (if n < 10 then [char_of (48 + n)]
      else str_nat (n div 10) @ [char_of (48 + n mod 10)])"

declare str_nat.simps [simp del]

definition str_int :: "int \<Rightarrow> string" where
  "str_int i = (if i < 0 then CHR ''-'' # str_nat (nat (- i)) else str_nat (nat i))"

text \<open>\<^verbatim>\<open>sep.join(parts)\<close>.\<close>

fun join :: "string \<Rightarrow> string list \<Rightarrow> string" where
  "join sep [] = []"
| "join sep [x] = x"
| "join sep (x # y # ys) = x @ sep @ join sep (y # ys)"

text \<open>
  The block appended for position \<open>i\<close> of \<open>topk_indices\<close>: the triple-quoted f-string
  starts and ends with a newline. The nested quotes of the second f-string need
  Python 3.12 or later.
\<close>

definition knowledge_block :: "int \<Rightarrow> string \<Rightarrow> string" where
  "knowledge_block i chunk =
     [newline] @ ''<retrieved_knowledge id='' @ [dquote] @ ''document-'' @ str_int i
       @ [dquote] @ ''>'' @ [newline]
       @ chunk @ [newline]
       @ ''</retrieved_knowledge>'' @ [newline]"

definition create_augmented_prompt ::
  "string \<Rightarrow> (string \<times> 'a) list \<Rightarrow> int list \<Rightarrow> string list \<Rightarrow> error + string" where
  "create_augmented_prompt query retrieved_chunks topk_indices chunks =
     (case collect
             (\<lambda>(i, idx). case py_index chunks idx of
                            Inl e \<Rightarrow> Inl e
                          | Inr c \<Rightarrow> Inr (knowledge_block i c))
             (enumerate_list topk_indices) of
        Inl e \<Rightarrow> Inl e
      | Inr context \<Rightarrow>
          Inr (''Use the following to answer questions.'' @ [newline]
                 @ join [newline] context @ [newline]))"

text \<open>\<^verbatim>\<open>s.endswith(suffix)\<close>, to say what a prompt ends with.\<close>

definition py_endswith :: "string \<Rightarrow> string \<Rightarrow> bool" where
  "py_endswith s suffix = (length suffix \<le> length s \<and> drop (length s - length suffix) s = suffix)"

section \<open>Properties of the chunker\<close>

subsection \<open>Auxiliary facts\<close>

lemma foldl_chunk_step:
  "foldl (chunk_step text cs) acc offs =
     acc @ filter (\<lambda>c. 0 < length (strip c)) (map (\<lambda>i. py_slice text i (i + cs)) offs)"
  by (induction offs arbitrary: acc) (simp_all add: chunk_step_def Let_def)

lemma foldl_chunk_step_at:
  "foldl (chunk_step_at text cs) acc offs =
     acc @ filter (\<lambda>p. 0 < length (strip (snd p))) (map (\<lambda>i. (i, py_slice text i (i + cs))) offs)"
  by (induction offs arbitrary: acc) (simp_all add: chunk_step_at_def Let_def)

lemma range_elems_pos:
  "0 < s \<Longrightarrow> range_elems i n s = map (\<lambda>k. i + int k * s) [0..<nat ((n - i + s - 1) div s)]"
proof (induction i n s rule: range_elems.induct)
  case (1 i stop step)
  show ?case
  proof (cases "i < stop")
    case True
    let ?m = "nat ((stop - (i + step) + step - 1) div step)"
    have d: "(stop - i + step - 1) div step = (stop - i - 1) div step + 1"
      using 1(3) by (metis diff_add_eq div_add_self2 less_irrefl)
    have nn: "0 \<le> (stop - i - 1) div step"
      using True 1(3) by (simp add: pos_imp_zdiv_nonneg_iff)
    have cnt: "nat ((stop - i + step - 1) div step) = Suc ?m"
      using d nn by (simp add: nat_add_distrib)
    have ih: "range_elems (i + step) stop step = map (\<lambda>k. i + step + int k * step) [0..<?m]"
      using 1(1) True 1(3) by simp
    have "range_elems i stop step = i # range_elems (i + step) stop step"
      using True 1(3) by (subst range_elems.simps) simp
    also have "\<dots> = i # map (\<lambda>k. i + step + int k * step) [0..<?m]"
      by (simp only: ih)
    also have "\<dots> = map (\<lambda>k. i + int k * step) [0..<Suc ?m]"
      by (simp add: upt_conv_Cons map_Suc_upt [symmetric] algebra_simps del: upt_Suc)
    finally show ?thesis by (simp only: cnt)
  next
    case False
    have z: "(stop - i + step - 1) div step \<le> 0"
    proof (cases "stop - i + step - 1 < 0")
      case True
      then show ?thesis using 1(3) by (simp add: pos_imp_zdiv_neg_iff less_imp_le)
    next
      case nonneg: False
      then have "(stop - i + step - 1) div step = 0"
        using False 1(3) by (intro div_pos_pos_trivial) simp_all
      then show ?thesis by simp
    qed
    have "range_elems i stop step = []"
      using False 1(3) by (subst range_elems.simps) simp
    then show ?thesis using z by simp
  qed
qed

lemma dropWhile_all_iff: "(\<forall>x\<in>set (dropWhile P s). P x) \<longleftrightarrow> (\<forall>x\<in>set s. P x)"
  by (induction s) auto

lemma strip_empty_iff: "strip s = [] \<longleftrightarrow> (\<forall>c\<in>set s. is_space c)"
  by (simp add: strip_def dropWhile_all_iff)

lemma filter_upt_gap:
  assumes "Suc i < length (filter P [0..<K])"
    and "filter P [0..<K] ! i < j" and "j < filter P [0..<K] ! Suc i"
  shows "\<not> P j"
proof
  assume pj: "P j"
  let ?js = "filter P [0..<K]"
  have ss: "sorted_wrt (<) ?js" by (simp add: sorted_wrt_filter)
  have "?js ! Suc i \<in> set ?js" using assms(1) by (meson nth_mem)
  then have "?js ! Suc i < K" by simp
  then have "j \<in> set ?js" using pj assms(3) by simp
  then obtain q where q: "q < length ?js" "?js ! q = j" by (meson in_set_conv_nth)
  have nth_less: "\<And>a b. a < b \<Longrightarrow> b < length ?js \<Longrightarrow> ?js ! a < ?js ! b"
    using ss by (simp add: sorted_wrt_iff_nth_less)
  show False
  proof (cases "q \<le> i")
    case True
    then have "?js ! q \<le> ?js ! i"
      using nth_less [of q i] assms(1) by (cases "q = i") auto
    then show False using q(2) assms(2) by simp
  next
    case False
    then have "?js ! Suc i \<le> ?js ! q"
      using nth_less [of "Suc i" q] q(1) by (cases "q = Suc i") auto
    then show False using q(2) assms(3) by simp
  qed
qed

lemma slice_length:
  assumes "0 \<le> i" and "i < int (length xs)" and "0 < cs"
  shows "int (length (py_slice xs i (i + cs))) = min cs (int (length xs) - i)"
  using assms by (auto simp: py_slice_def slice_bound_def Let_def min_def)

lemma semantic_chunk_at_closed:
  assumes "0 < chunk_size - overlap"
  shows "semantic_chunk_at text chunk_size overlap =
     Inr (map (\<lambda>j. (int j * (chunk_size - overlap), window text chunk_size (chunk_size - overlap) j))
            (kept text chunk_size (chunk_size - overlap)))"
  using assms
  by (simp add: semantic_chunk_at_def py_range_def Let_def foldl_chunk_step_at range_elems_pos
      filter_map comp_def kept_def window_def window_count_def)

lemma semantic_chunk_closed:
  assumes "0 < chunk_size - overlap"
  shows "semantic_chunk text chunk_size overlap =
     Inr (map (window text chunk_size (chunk_size - overlap))
            (kept text chunk_size (chunk_size - overlap)))"
  using assms
  by (simp add: semantic_chunk_def py_range_def Let_def foldl_chunk_step range_elems_pos
      filter_map comp_def kept_def window_def window_count_def)

lemma kept_sorted: "sorted_wrt (<) (kept text cs s)"
  by (simp add: kept_def sorted_wrt_filter)

lemma kept_bound:
  assumes "0 < s" and "j \<in> set (kept text cs s)"
  shows "int j * s < int (length text)"
proof -
  have "j < window_count text s" using assms(2) by (simp add: kept_def)
  then have "int j < (int (length text) + s - 1) div s"
    by (simp add: window_count_def)
  then have "int j + 1 \<le> (int (length text) + s - 1) div s" by simp
  then have "(int j + 1) * s \<le> (int (length text) + s - 1) div s * s"
    using assms(1) by (intro mult_right_mono) simp_all
  moreover have "(int (length text) + s - 1) div s * s \<le> int (length text) + s - 1"
    using pos_mod_sign [OF assms(1), of "int (length text) + s - 1"]
    by (simp add: minus_mod_eq_div_mult [symmetric])
  ultimately have "(int j + 1) * s \<le> int (length text) + s - 1" by linarith
  then show ?thesis by (simp add: algebra_simps)
qed

subsection \<open>Lengths and offsets of the chunks\<close>

text \<open>
  Claim C1, as stated, fails in both of its parts. With \<open>chunk_size = 3\<close> and
  \<open>overlap = 2\<close> the text \<open>abcd\<close> gives four chunks, and the third, \<open>cd\<close>, is shorter
  than \<open>chunk_size\<close> although it is not the last. With \<open>chunk_size = 1\<close> and
  \<open>overlap = 0\<close> the text \<open>a b\<close> loses its blank window, so the two retained chunks start
  at 0 and 2, two strides apart.
\<close>

theorem semantic_chunk_stride_counterexample:
  "semantic_chunk ''abcd'' 3 2 = Inr [''abc'', ''bcd'', ''cd'', ''d'']
   \<and> length ''cd'' \<noteq> 3
   \<and> semantic_chunk_at ''a b'' 1 0 = Inr [(0, ''a''), (2, ''b'')]
   \<and> (2::int) - 0 \<noteq> 1 - 0"
  by code_simp

text \<open>
  Claim C1, amended: for \<open>chunk_size > 0\<close> and \<open>0 \<le> overlap < chunk_size\<close> the call
  returns, and the chunk taken at offset \<open>o\<close> is \<^verbatim>\<open>text[o : o + chunk_size]\<close> of length
  \<open>min chunk_size (len(text) - o)\<close>, hence of length \<open>chunk_size\<close> unless fewer characters
  are left from \<open>o\<close> on. The offsets of two consecutive retained chunks differ by \<open>m\<close>
  strides for some \<open>m > 0\<close>, where the \<open>m - 1\<close> windows between them are the ones the
  loop dropped as blank; so the difference is exactly one stride when nothing was dropped
  between them.
\<close>

theorem semantic_chunk_lengths_and_offsets:
  assumes "0 < chunk_size" and "0 \<le> overlap" and "overlap < chunk_size"
  shows "\<exists>ps. semantic_chunk_at text chunk_size overlap = Inr ps
          \<and> semantic_chunk text chunk_size overlap = Inr (map snd ps)
          \<and> (\<forall>p\<in>set ps. snd p = py_slice text (fst p) (fst p + chunk_size)
                 \<and> int (length (snd p)) = min chunk_size (int (length text) - fst p))
          \<and> (\<forall>i. Suc i < length ps \<longrightarrow>
                (\<exists>m>0. fst (ps ! Suc i) - fst (ps ! i) = int m * (chunk_size - overlap)
                  \<and> (\<forall>t. 0 < t \<and> t < m \<longrightarrow>
                        strip (py_slice text (fst (ps ! i) + int t * (chunk_size - overlap))
                          (fst (ps ! i) + int t * (chunk_size - overlap) + chunk_size)) = [])))"
proof -
  let ?s = "chunk_size - overlap"
  let ?js = "kept text chunk_size ?s"
  let ?ps = "map (\<lambda>j. (int j * ?s, window text chunk_size ?s j)) ?js"
  have s: "0 < ?s" using assms by simp
  have at: "semantic_chunk_at text chunk_size overlap = Inr ?ps"
    by (rule semantic_chunk_at_closed [OF s])
  have plain: "semantic_chunk text chunk_size overlap = Inr (map snd ?ps)"
    by (simp add: semantic_chunk_closed [OF s] comp_def)
  have len: "\<forall>p\<in>set ?ps. snd p = py_slice text (fst p) (fst p + chunk_size)
       \<and> int (length (snd p)) = min chunk_size (int (length text) - fst p)"
  proof
    fix p assume "p \<in> set ?ps"
    then obtain j where j: "j \<in> set ?js" and p: "p = (int j * ?s, window text chunk_size ?s j)"
      by auto
    have lo: "0 \<le> int j * ?s" using s by simp
    have hi: "int j * ?s < int (length text)" by (rule kept_bound [OF s j])
    show "snd p = py_slice text (fst p) (fst p + chunk_size)
       \<and> int (length (snd p)) = min chunk_size (int (length text) - fst p)"
      using slice_length [OF lo hi assms(1)] by (simp add: p window_def)
  qed
  have gap: "\<forall>i. Suc i < length ?ps \<longrightarrow>
      (\<exists>m>0. fst (?ps ! Suc i) - fst (?ps ! i) = int m * ?s
        \<and> (\<forall>t. 0 < t \<and> t < m \<longrightarrow>
              strip (py_slice text (fst (?ps ! i) + int t * ?s)
                (fst (?ps ! i) + int t * ?s + chunk_size)) = []))"
  proof (intro allI impI)
    fix i assume i: "Suc i < length ?ps"
    then have i': "Suc i < length ?js" by simp
    have lt: "?js ! i < ?js ! Suc i"
      using kept_sorted [of "text" chunk_size ?s] i' by (simp add: sorted_wrt_iff_nth_less)
    define m where "m = ?js ! Suc i - ?js ! i"
    have m: "0 < m" "?js ! Suc i = ?js ! i + m" using lt by (simp_all add: m_def)
    have d: "fst (?ps ! Suc i) - fst (?ps ! i) = int m * ?s"
      using i' m(2) by (simp add: algebra_simps)
    have blank: "strip (py_slice text (fst (?ps ! i) + int t * ?s)
                (fst (?ps ! i) + int t * ?s + chunk_size)) = []" if t: "0 < t \<and> t < m" for t
    proof -
      have "\<not> 0 < length (strip (window text chunk_size ?s (?js ! i + t)))"
        using i' t m(2) unfolding kept_def
        by (intro filter_upt_gap [where i = i and K = "window_count text ?s"]) simp_all
      then show ?thesis using i' by (simp add: window_def algebra_simps)
    qed
    show "\<exists>m>0. fst (?ps ! Suc i) - fst (?ps ! i) = int m * ?s
        \<and> (\<forall>t. 0 < t \<and> t < m \<longrightarrow>
              strip (py_slice text (fst (?ps ! i) + int t * ?s)
                (fst (?ps ! i) + int t * ?s + chunk_size)) = [])"
      using m(1) d blank by blast
  qed
  show ?thesis using at plain len gap by blast
qed

theorem semantic_chunk_lengths_and_offsets_witness:
  "(0::int) < 3 \<and> (0::int) \<le> 1 \<and> (1::int) < 3 \<and>
   (\<exists>ps. semantic_chunk_at ''ab    cd'' 3 1 = Inr ps
          \<and> semantic_chunk ''ab    cd'' 3 1 = Inr (map snd ps)
          \<and> (\<forall>p\<in>set ps. snd p = py_slice ''ab    cd'' (fst p) (fst p + 3)
                 \<and> int (length (snd p)) = min 3 (int (length ''ab    cd'') - fst p))
          \<and> (\<forall>i. Suc i < length ps \<longrightarrow>
                (\<exists>m>0. fst (ps ! Suc i) - fst (ps ! i) = int m * (3 - 1)
                  \<and> (\<forall>t. 0 < t \<and> t < m \<longrightarrow>
                        strip (py_slice ''ab    cd'' (fst (ps ! i) + int t * (3 - 1))
                          (fst (ps ! i) + int t * (3 - 1) + 3)) = []))))"
proof -
  have h1: "(0::int) < 3" and h2: "(0::int) \<le> 1" and h3: "(1::int) < 3" by simp_all
  show ?thesis
    using h1 h2 h3 semantic_chunk_lengths_and_offsets [OF h1 h2 h3, of "''ab    cd''"] by blast
qed

subsection \<open>An overlap that is not below the chunk size\<close>

text \<open>
  Claim C2, as stated, fails: no configuration error exists in the scripts, and with
  \<open>overlap > chunk_size\<close> the stride is negative, \<^verbatim>\<open>range\<close> is empty and the call returns
  the empty list.
\<close>

theorem semantic_chunk_bad_overlap_counterexample:
  "semantic_chunk ''abc'' 2 3 = Inr []"
  by code_simp

text \<open>
  Claim C2, amended: for \<open>overlap \<ge> chunk_size\<close> no chunk is ever produced and the loop
  never runs; \<open>overlap = chunk_size\<close> fails with the \<^verbatim>\<open>ValueError\<close> that \<^verbatim>\<open>range\<close>
  raises for a zero step, and \<open>overlap > chunk_size\<close> returns the empty list.
\<close>

theorem semantic_chunk_bad_overlap:
  assumes "chunk_size \<le> overlap"
  shows "semantic_chunk text chunk_size overlap =
           (if overlap = chunk_size then Inl ValueError else Inr [])"
  using assms
  by (simp add: semantic_chunk_def py_range_def Let_def range_elems.simps [of 0])

theorem semantic_chunk_bad_overlap_witness:
  "(2::int) \<le> 3 \<and> semantic_chunk ''abc'' 2 3 = (if (3::int) = 2 then Inl ValueError else Inr [])
   \<and> (2::int) \<le> 2 \<and> semantic_chunk ''abc'' 2 2 = (if (2::int) = 2 then Inl ValueError else Inr [])"
proof -
  have h1: "(2::int) \<le> 3" and h2: "(2::int) \<le> 2" by simp_all
  show ?thesis
    using h1 h2 semantic_chunk_bad_overlap [OF h1, of "''abc''"]
      semantic_chunk_bad_overlap [OF h2, of "''abc''"] by blast
qed

subsection \<open>Chunks are slices at multiples of the stride, in traversal order\<close>

text \<open>
  Claim C9: for \<open>stride = chunk_size - overlap > 0\<close> the call returns the slices
  \<^verbatim>\<open>text[j*stride : j*stride + chunk_size]\<close> for a strictly increasing list of
  \<open>j \<ge> 0\<close>, and each of them has non-empty stripped text. The result is a function of
  \<open>text\<close>, \<open>chunk_size\<close> and \<open>overlap\<close> alone, so chunking again gives the same list.
\<close>

theorem semantic_chunk_slices_in_order:
  assumes "0 < chunk_size - overlap"
  shows "\<exists>js. semantic_chunk text chunk_size overlap =
            Inr (map (\<lambda>j. py_slice text (int j * (chunk_size - overlap))
                               (int j * (chunk_size - overlap) + chunk_size)) js)
          \<and> sorted_wrt (<) js
          \<and> (\<forall>j\<in>set js. strip (py_slice text (int j * (chunk_size - overlap))
                               (int j * (chunk_size - overlap) + chunk_size)) \<noteq> [])"
proof -
  let ?s = "chunk_size - overlap"
  let ?js = "kept text chunk_size ?s"
  have "semantic_chunk text chunk_size overlap =
      Inr (map (\<lambda>j. py_slice text (int j * ?s) (int j * ?s + chunk_size)) ?js)"
    using semantic_chunk_closed [OF assms, of "text"] by (simp add: window_def [abs_def])
  moreover have "sorted_wrt (<) ?js" by (rule kept_sorted)
  moreover have "\<forall>j\<in>set ?js. strip (py_slice text (int j * ?s) (int j * ?s + chunk_size)) \<noteq> []"
    by (simp add: kept_def window_def)
  ultimately show ?thesis by blast
qed

theorem semantic_chunk_slices_in_order_witness:
  "(0::int) < 3 - 1 \<and>
   (\<exists>js. semantic_chunk ''ab    cd'' 3 1 =
            Inr (map (\<lambda>j. py_slice ''ab    cd'' (int j * (3 - 1)) (int j * (3 - 1) + 3)) js)
          \<and> sorted_wrt (<) js
          \<and> (\<forall>j\<in>set js. strip (py_slice ''ab    cd'' (int j * (3 - 1)) (int j * (3 - 1) + 3)) \<noteq> []))"
proof -
  have h: "(0::int) < 3 - 1" by simp
  show ?thesis using h semantic_chunk_slices_in_order [OF h, of "''ab    cd''"] by blast
qed

section \<open>Properties of the embedding batches\<close>

lemma py_index_in_range:
  "0 \<le> i \<Longrightarrow> i < int (length xs) \<Longrightarrow> py_index xs i = Inr (xs ! nat i)"
  by (simp add: py_index_def)

lemma collect_all_Inr:
  "(\<And>x. x \<in> set xs \<Longrightarrow> f x = Inr (g x)) \<Longrightarrow> collect f xs = Inr (map g xs)"
  by (induction xs) simp_all

lemma foldl_extend:
  "foldl (\<lambda>acc i. acc @ g i) acc offs = acc @ concat (map g offs)"
  by (induction offs arbitrary: acc) simp_all

lemma slice_window:
  assumes "0 \<le> a" and "a < int (length xs)" and "0 < b"
  shows "py_slice xs a (a + b) = take (nat b) (drop (nat a) xs)"
  using assms by (auto simp: py_slice_def slice_bound_def Let_def min_def)

lemma batches_cover:
  assumes "\<And>batch. batch \<noteq> [] \<Longrightarrow> int (length batch) \<le> b \<Longrightarrow> create batch = map f batch"
    and "0 < b" and "0 \<le> a" and "n = int (length xs)"
  shows "concat (map (\<lambda>i. create (py_slice xs i (i + b))) (range_elems a n b)) = map f (drop (nat a) xs)"
  using assms
proof (induction a n b rule: range_elems.induct)
  case (1 i stop step)
  note create = "1.prems"(1) and step = "1.prems"(2) and lo = "1.prems"(3) and stop = "1.prems"(4)
  show ?case
  proof (cases "i < stop")
    case True
    let ?batch = "take (nat step) (drop (nat i) xs)"
    have sl: "py_slice xs i (i + step) = ?batch"
      using True step lo stop by (intro slice_window) simp_all
    have ne: "?batch \<noteq> []" using True step lo stop by auto
    have le: "int (length ?batch) \<le> step" using step by simp
    have ih: "concat (map (\<lambda>i. create (py_slice xs i (i + step))) (range_elems (i + step) stop step))
        = map f (drop (nat (i + step)) xs)"
      using "1.IH"(1) [OF _ create] True step lo stop by simp
    have unfold: "range_elems i stop step = i # range_elems (i + step) stop step"
      using True step by (subst range_elems.simps) simp
    have "concat (map (\<lambda>i. create (py_slice xs i (i + step))) (range_elems i stop step))
        = map f ?batch @ map f (drop (nat (i + step)) xs)"
      by (simp add: unfold ih sl create [OF ne le])
    also have "\<dots> = map f (?batch @ drop (nat step) (drop (nat i) xs))"
      using step lo by (simp add: nat_add_distrib add.commute)
    finally show ?thesis by (simp only: append_take_drop_id)
  next
    case False
    have "range_elems i stop step = []"
      using False step by (subst range_elems.simps) simp
    then show ?thesis using False lo stop by simp
  qed
qed

text \<open>
  Claim C8: let the collaborator answer every non-empty request of at most 100 texts with
  the list of \<open>f\<close> of each text, in order. Then \<^verbatim>\<open>compute_embeddings\<close> returns \<open>f\<close> of
  each chunk in the order of the chunks, one embedding per chunk, and this is the list
  that calling \<^verbatim>\<open>embed\<close> on each chunk gives: the batch boundaries do not show.
\<close>

theorem compute_embeddings_batched:
  assumes "\<And>batch. batch \<noteq> [] \<Longrightarrow> length batch \<le> 100 \<Longrightarrow> embeddings_create batch = map f batch"
  shows "compute_embeddings embeddings_create chunks = map f chunks
       \<and> length (compute_embeddings embeddings_create chunks) = length chunks
       \<and> collect (embed embeddings_create) chunks = Inr (compute_embeddings embeddings_create chunks)"
proof -
  have a: "embeddings_create batch = map f batch"
    if "batch \<noteq> []" and "int (length batch) \<le> batch_size" for batch
    using that assms [of batch] by (simp add: batch_size_def)
  have eq: "compute_embeddings embeddings_create chunks = map f chunks"
    unfolding compute_embeddings_def foldl_extend
    using batches_cover [where create = embeddings_create and f = f and b = batch_size
        and a = 0 and xs = chunks, OF a]
    by (simp add: batch_size_def)
  have one: "embed embeddings_create c = Inr (f c)" for c
    using assms [of "[c]"] by (simp add: embed_def py_index_def)
  have "collect (embed embeddings_create) chunks = Inr (map f chunks)"
    by (rule collect_all_Inr) (rule one)
  then show ?thesis using eq by simp
qed

theorem compute_embeddings_batched_witness:
  "compute_embeddings (map length) (replicate 250 ''ab'' @ [''c'']) = map length (replicate 250 ''ab'' @ [''c''])
   \<and> length (compute_embeddings (map length) (replicate 250 ''ab'' @ [''c''])) = length (replicate 250 ''ab'' @ [''c''])
   \<and> collect (embed (map length)) (replicate 250 ''ab'' @ [''c''])
       = Inr (compute_embeddings (map length) (replicate 250 ''ab'' @ [''c'']))"
  by (rule compute_embeddings_batched) simp

section \<open>Properties of the knowledge store\<close>

text \<open>
  Claim C4, as stated, fails: a stored document with one chunk and no embedding loads
  without any error, and no corrupt-store check exists in the loader.
\<close>

theorem load_unchecked_counterexample:
  "length [JStr ''a'' :: int json] \<noteq> length ([] :: int json list)
   \<and> load_knowledge_base (Map.empty (KNOWLEDGE_BASE_FILE \<mapsto>
        Document (JObj [(''chunks'', JArr [JStr ''a'']), (''embeddings'', JArr [])])))
     = Inr (JArr [JStr ''a''], JArr [] :: int json)"
  by (simp add: load_knowledge_base_def read_json_def)

text \<open>
  Claim C4, amended: \<^verbatim>\<open>load_knowledge_base\<close> fails with \<^verbatim>\<open>FileNotFoundError\<close> when the
  file is absent, with the decoder's error when its text is no JSON document, with
  \<^verbatim>\<open>TypeError\<close> when the document is no object, and with \<^verbatim>\<open>KeyError\<close> when the
  stored object lacks \<open>chunks\<close> or \<open>embeddings\<close>. Otherwise it returns the two stored
  fields as they are, whatever their lengths.
\<close>

theorem load_knowledge_base_outcomes:
  "(fs KNOWLEDGE_BASE_FILE = None \<longrightarrow> load_knowledge_base fs = Inl FileNotFoundError)
   \<and> (fs KNOWLEDGE_BASE_FILE = Some NotJson \<longrightarrow> load_knowledge_base fs = Inl JSONDecodeError)
   \<and> (fs KNOWLEDGE_BASE_FILE = Some (Document data) \<and> (\<forall>kvs. data \<noteq> JObj kvs)
        \<longrightarrow> load_knowledge_base fs = Inl TypeError)
   \<and> (fs KNOWLEDGE_BASE_FILE = Some (Document (JObj kvs))
        \<and> (map_of kvs ''chunks'' = None \<or> map_of kvs ''embeddings'' = None)
        \<longrightarrow> load_knowledge_base fs = Inl KeyError)
   \<and> (fs KNOWLEDGE_BASE_FILE = Some (Document (JObj kvs))
        \<and> map_of kvs ''chunks'' = Some chunks \<and> map_of kvs ''embeddings'' = Some embeddings
        \<longrightarrow> load_knowledge_base fs = Inr (chunks, embeddings))"
proof -
  have "py_getitem data ''chunks'' = Inl TypeError" if "\<forall>kvs. data \<noteq> JObj kvs"
    using that by (cases data) simp_all
  then show ?thesis
    by (auto simp: load_knowledge_base_def read_json_def split: option.splits)
qed

theorem load_knowledge_base_outcomes_witness:
  "load_knowledge_base (Map.empty :: int filesystem) = Inl FileNotFoundError
   \<and> load_knowledge_base (Map.empty (KNOWLEDGE_BASE_FILE \<mapsto> NotJson) :: int filesystem)
        = Inl JSONDecodeError
   \<and> load_knowledge_base (Map.empty (KNOWLEDGE_BASE_FILE \<mapsto> Document (JArr [])) :: int filesystem)
        = Inl TypeError
   \<and> load_knowledge_base (Map.empty (KNOWLEDGE_BASE_FILE \<mapsto>
        Document (JObj [(''chunks'', JArr [JStr ''a''])])) :: int filesystem) = Inl KeyError
   \<and> load_knowledge_base (Map.empty (KNOWLEDGE_BASE_FILE \<mapsto>
        Document (JObj [(''chunks'', JArr [JStr ''a'']), (''embeddings'', JArr [JArr [JFloat 1]])]))
          :: int filesystem)
        = Inr (JArr [JStr ''a''], JArr [JArr [JFloat 1]])"
  using
    load_knowledge_base_outcomes [of "Map.empty :: int filesystem"]
    load_knowledge_base_outcomes [of "Map.empty (KNOWLEDGE_BASE_FILE \<mapsto> NotJson) :: int filesystem"]
    load_knowledge_base_outcomes [of "Map.empty (KNOWLEDGE_BASE_FILE \<mapsto> Document (JArr [])) :: int filesystem"
        "JArr []"]
    load_knowledge_base_outcomes [of "Map.empty (KNOWLEDGE_BASE_FILE \<mapsto>
        Document (JObj [(''chunks'', JArr [JStr ''a''])])) :: int filesystem" _
        "[(''chunks'', JArr [JStr ''a''])]"]
    load_knowledge_base_outcomes [of "Map.empty (KNOWLEDGE_BASE_FILE \<mapsto>
        Document (JObj [(''chunks'', JArr [JStr ''a'']), (''embeddings'', JArr [JArr [JFloat 1]])]))
          :: int filesystem" _
        "[(''chunks'', JArr [JStr ''a'']), (''embeddings'', JArr [JArr [JFloat 1]])]"
        "JArr [JStr ''a'']" "JArr [JArr [JFloat 1]]"]
  by simp

text \<open>
  Claim C5: when \<^verbatim>\<open>len(chunks)\<close> is defined, saving to the default file succeeds, loading
  afterwards returns the chunks and the embeddings that were saved, and the stored
  metadata has \<open>num_chunks = len(chunks)\<close>. The metadata is no argument of the writer and
  no result of the loader, so it is read from the stored document.
\<close>

theorem save_load_roundtrip:
  assumes "py_len chunks = Inr n"
  shows "\<exists>fs'. save_knowledge_base chunks embeddings OUTPUT_FILE fs = Inr fs'
          \<and> load_knowledge_base fs' = Inr (chunks, embeddings)
          \<and> (\<exists>data metadata. read_json fs' KNOWLEDGE_BASE_FILE = Inr data
                \<and> py_getitem data ''metadata'' = Inr metadata
                \<and> py_getitem metadata ''num_chunks'' = Inr (JInt n))"
  using assms
  by (simp add: save_knowledge_base_def load_knowledge_base_def read_json_def
      OUTPUT_FILE_def KNOWLEDGE_BASE_FILE_def)

theorem save_load_roundtrip_witness:
  "py_len (JArr [JStr ''a'', JStr ''b''] :: int json) = Inr 2 \<and>
   (\<exists>fs'. save_knowledge_base (JArr [JStr ''a'', JStr ''b''])
             (JArr [JArr [JFloat 1, JFloat 0], JArr [JFloat 0, JFloat 1]]) OUTPUT_FILE
             (Map.empty :: int filesystem) = Inr fs'
          \<and> load_knowledge_base fs' =
              Inr (JArr [JStr ''a'', JStr ''b''], JArr [JArr [JFloat 1, JFloat 0], JArr [JFloat 0, JFloat 1]])
          \<and> (\<exists>data metadata. read_json fs' KNOWLEDGE_BASE_FILE = Inr data
                \<and> py_getitem data ''metadata'' = Inr metadata
                \<and> py_getitem metadata ''num_chunks'' = Inr (JInt 2)))"
proof -
  have h: "py_len (JArr [JStr ''a'', JStr ''b''] :: int json) = Inr 2" by simp
  show ?thesis
    using h save_load_roundtrip [OF h, of "JArr [JArr [JFloat 1, JFloat 0], JArr [JFloat 0, JFloat 1]]"
        "Map.empty :: int filesystem"]
    by blast
qed

section \<open>Properties of the retriever\<close>

subsection \<open>Auxiliary facts\<close>

lemma py_slice_prefix: "0 \<le> k \<Longrightarrow> py_slice xs 0 k = take (nat k) xs"
  by (auto simp: py_slice_def slice_bound_def Let_def min_def)

lemma py_slice_map: "py_slice (map f xs) lo hi = map f (py_slice xs lo hi)"
  by (simp add: py_slice_def Let_def take_map drop_map)

lemma py_slice_subset: "set (py_slice xs lo hi) \<subseteq> set xs"
  by (metis py_slice_def set_drop_subset set_take_subset subset_trans)

lemma enumerate_list_fst: "map fst (enumerate_list xs) = map int [0..<length xs]"
  by (simp add: enumerate_list_def)

lemma enumerate_list_snd: "map snd (enumerate_list xs) = xs"
  by (simp add: enumerate_list_def)

lemma enumerate_list_mem:
  assumes "p \<in> set (enumerate_list xs)"
  shows "0 \<le> fst p \<and> fst p < int (length xs) \<and> snd p = xs ! nat (fst p)"
proof -
  obtain m where m: "m < length (enumerate_list xs)" "enumerate_list xs ! m = p"
    using assms by (meson in_set_conv_nth)
  then have "m < length xs" by (simp add: enumerate_list_def)
  then show ?thesis using m(2) by (auto simp: enumerate_list_def)
qed

lemma enumerate_list_sorted: "sorted_wrt (\<lambda>a b. fst a < fst b) (enumerate_list xs)"
proof -
  have "sorted_wrt (<) (map fst (enumerate_list xs))"
    by (simp add: enumerate_list_fst sorted_wrt_map)
  then show ?thesis by (simp add: sorted_wrt_map)
qed

lemma enumerate_list_nth:
  "enumerate_list xs = map (\<lambda>i. (int i, xs ! i)) [0..<length xs]"
  by (rule nth_equalityI) (simp_all add: enumerate_list_def)

lemma py_sort_desc_mset: "mset (py_sort_desc key xs) = mset xs"
  by (simp add: py_sort_desc_def)

lemma py_sort_desc_set: "set (py_sort_desc key xs) = set xs"
  by (simp add: py_sort_desc_def)

lemma py_sort_desc_length: "length (py_sort_desc key xs) = length xs"
  by (simp add: py_sort_desc_def)

lemma py_sort_desc_sorted: "sorted_wrt (\<lambda>a b. key b \<le> key a) (py_sort_desc key xs)"
proof -
  have "sorted (map key (sort_key key (rev xs)))" by simp
  then have "sorted_wrt (\<lambda>a b. key a \<le> key b) (sort_key key (rev xs))"
    by (simp add: sorted_wrt_map)
  then show ?thesis by (simp add: py_sort_desc_def sorted_wrt_rev)
qed

lemma py_sort_desc_stable:
  "filter (\<lambda>y. key y = v) (py_sort_desc key xs) = filter (\<lambda>y. key y = v) xs"
  by (simp add: py_sort_desc_def sort_key_stable flip: rev_filter)

lemma sorted_wrt_ties:
  assumes "sorted_wrt Q xs" and "\<And>v. sorted_wrt R (filter (\<lambda>y. key y = v) xs)"
  shows "sorted_wrt (\<lambda>a b. Q a b \<and> (key a = key b \<longrightarrow> R a b)) xs"
  using assms
proof (induction xs)
  case Nil
  then show ?case by simp
next
  case (Cons x xs)
  have tail: "sorted_wrt R (filter (\<lambda>y. key y = v) xs)" for v
    using Cons.prems(2) [of v] by (cases "key x = v") simp_all
  have head: "R x y" if "y \<in> set xs" and "key x = key y" for y
    using Cons.prems(2) [of "key x"] that by simp
  show ?case using Cons.IH Cons.prems(1) tail head by simp
qed

lemma ranking_mset: "mset (ranking q embs) = mset (map int [0..<length embs])"
proof -
  have "mset (ranking q embs) = image_mset fst (mset (enumerate_list (map (dot_product q) embs)))"
    by (simp add: ranking_def py_sort_desc_mset)
  also have "\<dots> = mset (map fst (enumerate_list (map (dot_product q) embs)))" by simp
  also have "\<dots> = mset (map int [0..<length embs])" by (simp only: enumerate_list_fst length_map)
  finally show ?thesis .
qed

lemma ranking_length: "length (ranking q embs) = length embs"
  by (simp add: ranking_def py_sort_desc_length enumerate_list_def)

lemma ranking_set: "set (ranking q embs) = int ` {0..<length embs}"
proof -
  have "set (ranking q embs) = set (map int [0..<length embs])"
    using ranking_mset [of q embs] by (metis set_mset_mset)
  then show ?thesis by simp
qed

lemma ranking_distinct: "distinct (ranking q embs)"
proof -
  have "distinct (map int [0..<length embs])" by (simp add: distinct_map)
  then show ?thesis using ranking_mset [of q embs] by (metis mset_eq_imp_distinct_iff)
qed

lemma ranking_sorted:
  "sorted_wrt (\<lambda>i j. dot_product q (embs ! nat j) \<le> dot_product q (embs ! nat i)
        \<and> (dot_product q (embs ! nat i) = dot_product q (embs ! nat j) \<longrightarrow> i < j))
     (ranking q embs)"
proof -
  let ?sims = "map (dot_product q) embs"
  let ?E = "enumerate_list ?sims"
  let ?S = "py_sort_desc snd ?E"
  have ties: "sorted_wrt (\<lambda>a b. fst a < fst b) (filter (\<lambda>y. snd y = v) ?S)" for v
    by (simp add: py_sort_desc_stable sorted_wrt_filter enumerate_list_sorted)
  have pairs: "sorted_wrt (\<lambda>a b. snd b \<le> snd a \<and> (snd a = snd b \<longrightarrow> fst a < fst b)) ?S"
    by (rule sorted_wrt_ties [where key = snd, OF py_sort_desc_sorted ties])
  have score: "snd p = dot_product q (embs ! nat (fst p))" if "p \<in> set ?S" for p
  proof -
    have "p \<in> set ?E" using that by (simp add: py_sort_desc_set)
    from enumerate_list_mem [OF this]
    have "nat (fst p) < length embs" and "snd p = ?sims ! nat (fst p)" by auto
    then show ?thesis by simp
  qed
  have "sorted_wrt (\<lambda>a b. dot_product q (embs ! nat (fst b)) \<le> dot_product q (embs ! nat (fst a))
        \<and> (dot_product q (embs ! nat (fst a)) = dot_product q (embs ! nat (fst b)) \<longrightarrow> fst a < fst b)) ?S"
    by (rule sorted_wrt_mono_rel [OF _ pairs]) (simp add: score)
  then show ?thesis by (simp add: ranking_def sorted_wrt_map)
qed

lemma retrieve_closed:
  assumes "length chunks = length embs"
  shows "retrieve_relevant_chunks q embs chunks k =
     Inr (map (\<lambda>i. (chunks ! nat i, dot_product q (embs ! nat i))) (py_slice (ranking q embs) 0 k),
          py_slice (ranking q embs) 0 k)"
proof -
  let ?sims = "map (dot_product q) embs"
  let ?idxs = "py_slice (ranking q embs) 0 k"
  have idxs: "map fst (py_slice (py_sort_desc snd (enumerate_list ?sims)) 0 k) = ?idxs"
    by (simp add: py_slice_map ranking_def)
  have each: "(case py_index chunks i of Inl e \<Rightarrow> Inl e
        | Inr c \<Rightarrow> (case py_index ?sims i of Inl e \<Rightarrow> Inl e | Inr s \<Rightarrow> Inr (c, s)))
      = Inr (chunks ! nat i, dot_product q (embs ! nat i))" if "i \<in> set ?idxs" for i
  proof -
    have "i \<in> set (ranking q embs)"
      using that py_slice_subset [of "ranking q embs" 0 k] by auto
    then have r: "0 \<le> i" "i < int (length embs)" by (auto simp: ranking_set)
    then show ?thesis using assms(1) by (simp add: py_index_in_range)
  qed
  show ?thesis
    unfolding retrieve_relevant_chunks_def Let_def idxs
    by (simp add: collect_all_Inr [where g = "\<lambda>i. (chunks ! nat i, dot_product q (embs ! nat i))", OF each])
qed

lemma zip_take_left: "zip xs (take (length xs) ys) = zip xs ys"
proof (induction xs arbitrary: ys)
  case Nil
  then show ?case by simp
next
  case (Cons a xs)
  then show ?case by (cases ys) simp_all
qed

lemma dot_product_truncate: "dot_product v1 (take (length v1) v2) = dot_product v1 v2"
  by (simp add: dot_product_def zip_take_left)

lemma ranking_truncate: "ranking q (map (take (length q)) embs) = ranking q embs"
  by (simp add: ranking_def comp_def dot_product_truncate)

subsection \<open>The top-k result\<close>

text \<open>
  Claim C3: on a knowledge base with as many chunks as embeddings and for \<open>k \<ge> 1\<close>, the
  retriever returns the pairs (chunk, score) of a list of \<open>min k n\<close> distinct chunk
  indices, ordered by descending score with equal scores in ascending index order; for
  \<open>k \<ge> n\<close> these are all the indices, and no chunk left out scores higher than one
  returned. For \<open>n = 0\<close> the result is the empty list.
\<close>

theorem retrieve_relevant_chunks_top_k:
  assumes "length chunks = length chunk_embeddings" and "1 \<le> k"
  shows "\<exists>idxs. retrieve_relevant_chunks q chunk_embeddings chunks k =
            Inr (map (\<lambda>i. (chunks ! nat i, dot_product q (chunk_embeddings ! nat i))) idxs, idxs)
          \<and> length idxs = min (nat k) (length chunks)
          \<and> distinct idxs
          \<and> set idxs \<subseteq> int ` {0..<length chunks}
          \<and> sorted_wrt (\<lambda>i j. dot_product q (chunk_embeddings ! nat j) \<le> dot_product q (chunk_embeddings ! nat i)
                \<and> (dot_product q (chunk_embeddings ! nat i) = dot_product q (chunk_embeddings ! nat j) \<longrightarrow> i < j)) idxs
          \<and> (int (length chunks) \<le> k \<longrightarrow> set idxs = int ` {0..<length chunks})
          \<and> (\<forall>i\<in>set idxs. \<forall>j\<in>int ` {0..<length chunks} - set idxs.
                dot_product q (chunk_embeddings ! nat j) \<le> dot_product q (chunk_embeddings ! nat i))"
proof -
  let ?r = "ranking q chunk_embeddings"
  let ?idxs = "take (nat k) ?r"
  let ?P = "\<lambda>i j. dot_product q (chunk_embeddings ! nat j) \<le> dot_product q (chunk_embeddings ! nat i)
                \<and> (dot_product q (chunk_embeddings ! nat i) = dot_product q (chunk_embeddings ! nat j) \<longrightarrow> i < j)"
  have k: "0 \<le> k" using assms(2) by simp
  have res: "retrieve_relevant_chunks q chunk_embeddings chunks k =
      Inr (map (\<lambda>i. (chunks ! nat i, dot_product q (chunk_embeddings ! nat i))) ?idxs, ?idxs)"
    using retrieve_closed [OF assms(1), of q k] by (simp add: py_slice_prefix [OF k])
  have len: "length ?idxs = min (nat k) (length chunks)"
    by (simp add: ranking_length assms(1) min.commute)
  have dist: "distinct ?idxs" by (simp add: ranking_distinct)
  have sub: "set ?idxs \<subseteq> int ` {0..<length chunks}"
    using set_take_subset [of "nat k" ?r] by (simp add: ranking_set assms(1))
  have srt: "sorted_wrt ?P ?r" by (rule ranking_sorted)
  have srt_take: "sorted_wrt ?P ?idxs"
    using srt by (rule sorted_wrt_take)
  have all: "int (length chunks) \<le> k \<longrightarrow> set ?idxs = int ` {0..<length chunks}"
    by (simp add: ranking_length ranking_set assms(1))
  have top: "\<forall>i\<in>set ?idxs. \<forall>j\<in>int ` {0..<length chunks} - set ?idxs.
      dot_product q (chunk_embeddings ! nat j) \<le> dot_product q (chunk_embeddings ! nat i)"
  proof (intro ballI)
    fix i j assume i: "i \<in> set ?idxs" and j: "j \<in> int ` {0..<length chunks} - set ?idxs"
    have split: "set ?r = set ?idxs \<union> set (drop (nat k) ?r)"
      by (metis append_take_drop_id set_append)
    have "j \<in> set ?r" using j by (simp add: ranking_set assms(1))
    then have jd: "j \<in> set (drop (nat k) ?r)" using j split by blast
    have "sorted_wrt ?P (?idxs @ drop (nat k) ?r)" using srt by simp
    then have "?P i j" using i jd unfolding sorted_wrt_append by blast
    then show "dot_product q (chunk_embeddings ! nat j) \<le> dot_product q (chunk_embeddings ! nat i)"
      by simp
  qed
  show ?thesis using res len dist sub srt_take all top by blast
qed

theorem retrieve_relevant_chunks_top_k_witness:
  "length [''a'', ''b'', ''c''] = length [[1, 0], [0, 1], [1, 0 :: int]] \<and> (1::int) \<le> 2 \<and>
   (\<exists>idxs. retrieve_relevant_chunks [1, 0] [[1, 0], [0, 1], [1, 0 :: int]] [''a'', ''b'', ''c''] 2 =
            Inr (map (\<lambda>i. ([''a'', ''b'', ''c''] ! nat i,
                   dot_product [1, 0] ([[1, 0], [0, 1], [1, 0]] ! nat i))) idxs, idxs)
          \<and> length idxs = min (nat 2) (length [''a'', ''b'', ''c'']))"
proof -
  have h1: "length [''a'', ''b'', ''c''] = length [[1, 0], [0, 1], [1, 0 :: int]]" by simp
  have h2: "(1::int) \<le> 2" by simp
  show ?thesis
    using h1 h2 retrieve_relevant_chunks_top_k [OF h1 h2, of "[1, 0]"] by blast
qed

text \<open>
  The scenario of the specification, with the scores scaled to integers, a tie between
  the first and the last chunk, and the empty store.
\<close>

theorem retrieve_scenario:
  "retrieve_relevant_chunks [10, 0] [[10, 0], [0, 10], [7, 7 :: int]] [''c0'', ''c1'', ''c2''] 2
     = Inr ([(''c0'', 100), (''c2'', 70)], [0, 2])
   \<and> retrieve_relevant_chunks [1, 0] [[1, 0], [0, 1], [1, 0 :: int]] [''a'', ''b'', ''c''] 5
     = Inr ([(''a'', 1), (''c'', 1), (''b'', 0)], [0, 2, 1])
   \<and> retrieve_relevant_chunks [1, 0] ([] :: int list list) [] 5 = Inr ([], [])"
  by code_simp

subsection \<open>A query vector of another length\<close>

text \<open>
  Claim C6, as stated, fails: a query vector of length 1 against stored vectors of length
  2 is answered, with a score computed from the first component.
\<close>

theorem retrieve_dimension_mismatch_counterexample:
  "length [1 :: int] \<noteq> length [1, 0 :: int]
   \<and> retrieve_relevant_chunks [1] [[1, 0], [0, 1 :: int]] [''a'', ''b''] 1 = Inr ([(''a'', 1)], [0])"
  by code_simp

text \<open>
  Claim C6, amended: on a knowledge base with as many chunks as embeddings the retriever
  never fails, whatever the length of the query vector; \<^verbatim>\<open>zip\<close> stops at the shorter
  vector, so the result is the one for the stored vectors cut to the query's length. The
  retriever only reads its arguments.
\<close>

theorem retrieve_dimension_mismatch:
  assumes "length chunks = length chunk_embeddings"
  shows "\<exists>r. retrieve_relevant_chunks q chunk_embeddings chunks k = Inr r
          \<and> retrieve_relevant_chunks q (map (take (length q)) chunk_embeddings) chunks k = Inr r"
proof -
  let ?t = "map (take (length q)) chunk_embeddings"
  let ?idxs = "py_slice (ranking q chunk_embeddings) 0 k"
  have len: "length chunks = length ?t" using assms by simp
  have score: "dot_product q (?t ! nat i) = dot_product q (chunk_embeddings ! nat i)"
    if "i \<in> set ?idxs" for i
  proof -
    have "i \<in> set (ranking q chunk_embeddings)"
      using that py_slice_subset [of "ranking q chunk_embeddings" 0 k] by auto
    then have "nat i < length chunk_embeddings" by (auto simp: ranking_set)
    then show ?thesis by (simp add: dot_product_truncate)
  qed
  have "retrieve_relevant_chunks q ?t chunks k =
      Inr (map (\<lambda>i. (chunks ! nat i, dot_product q (?t ! nat i))) ?idxs, ?idxs)"
    using retrieve_closed [OF len, of q k] by (simp only: ranking_truncate)
  also have "map (\<lambda>i. (chunks ! nat i, dot_product q (?t ! nat i))) ?idxs =
      map (\<lambda>i. (chunks ! nat i, dot_product q (chunk_embeddings ! nat i))) ?idxs"
    using score by simp
  finally show ?thesis using retrieve_closed [OF assms, of q k] by simp
qed

theorem retrieve_dimension_mismatch_witness:
  "length [''a'', ''b''] = length [[1, 0], [0, 1 :: int]] \<and>
   (\<exists>r. retrieve_relevant_chunks [1] [[1, 0], [0, 1 :: int]] [''a'', ''b''] 1 = Inr r
          \<and> retrieve_relevant_chunks [1] (map (take (length [1 :: int])) [[1, 0], [0, 1]]) [''a'', ''b''] 1 = Inr r)"
proof -
  have h: "length [''a'', ''b''] = length [[1, 0], [0, 1 :: int]]" by simp
  show ?thesis using h retrieve_dimension_mismatch [OF h, of "[1]" 1] by blast
qed

section \<open>Properties of the prompt assembler\<close>

text \<open>
  Claim C10: the prompt depends on \<open>topk_indices\<close> and \<open>chunks\<close> only; the query and
  the retrieved pairs are not read.
\<close>

theorem create_augmented_prompt_ignores_query:
  "create_augmented_prompt query1 retrieved_chunks1 topk_indices chunks =
   create_augmented_prompt query2 retrieved_chunks2 topk_indices chunks"
  by (simp add: create_augmented_prompt_def)

text \<open>
  Claim C7, as stated, fails: the prompt ends with the last knowledge block and a blank
  line, not with the query.
\<close>

theorem create_augmented_prompt_query_counterexample:
  "create_augmented_prompt ''QUERY'' [(''c'', 1 :: int)] [0] [''c''] =
     Inr (''Use the following to answer questions.'' @ [newline]
       @ [newline] @ ''<retrieved_knowledge id='' @ [dquote] @ ''document-0'' @ [dquote] @ ''>''
       @ [newline] @ ''c'' @ [newline] @ ''</retrieved_knowledge>'' @ [newline] @ [newline])
   \<and> \<not> py_endswith (''Use the following to answer questions.'' @ [newline]
       @ [newline] @ ''<retrieved_knowledge id='' @ [dquote] @ ''document-0'' @ [dquote] @ ''>''
       @ [newline] @ ''c'' @ [newline] @ ''</retrieved_knowledge>'' @ [newline] @ [newline]) ''QUERY''"
  by code_simp

text \<open>
  Claim C7, amended: for indices within the chunk list, the prompt is the header line, then
  the blocks joined by newlines, then a newline, where the block at position \<open>i\<close> of
  \<open>topk_indices\<close> is tagged \<open>document-i\<close> and holds the text of the chunk that
  \<open>topk_indices[i]\<close> names. The prompt does not depend on the query: any other query and
  any other list of retrieved pairs give the same string.
\<close>

theorem create_augmented_prompt_blocks:
  assumes "\<forall>idx\<in>set topk_indices. 0 \<le> idx \<and> idx < int (length chunks)"
  shows "create_augmented_prompt query retrieved_chunks topk_indices chunks =
     Inr (''Use the following to answer questions.'' @ [newline]
       @ join [newline]
           (map (\<lambda>i. knowledge_block (int i) (chunks ! nat (topk_indices ! i)))
              [0..<length topk_indices])
       @ [newline])
   \<and> create_augmented_prompt other_query other_retrieved_chunks topk_indices chunks =
       create_augmented_prompt query retrieved_chunks topk_indices chunks"
proof -
  let ?g = "\<lambda>p. knowledge_block (fst p) (chunks ! nat (snd p))"
  have each: "(case p of (i, idx) \<Rightarrow>
        case py_index chunks idx of Inl e \<Rightarrow> Inl e | Inr c \<Rightarrow> Inr (knowledge_block i c))
      = Inr (?g p)" if "p \<in> set (enumerate_list topk_indices)" for p
  proof -
    have "snd p \<in> set (map snd (enumerate_list topk_indices))" using that by simp
    then have "snd p \<in> set topk_indices" by (simp only: enumerate_list_snd)
    then have "0 \<le> snd p" "snd p < int (length chunks)" using assms by auto
    then show ?thesis by (cases p) (simp add: py_index_in_range)
  qed
  have blocks: "map ?g (enumerate_list topk_indices) =
      map (\<lambda>i. knowledge_block (int i) (chunks ! nat (topk_indices ! i))) [0..<length topk_indices]"
    by (simp add: enumerate_list_nth)
  have closed: "create_augmented_prompt query retrieved_chunks topk_indices chunks =
     Inr (''Use the following to answer questions.'' @ [newline]
       @ join [newline]
           (map (\<lambda>i. knowledge_block (int i) (chunks ! nat (topk_indices ! i)))
              [0..<length topk_indices])
       @ [newline])"
    unfolding create_augmented_prompt_def
    by (simp add: collect_all_Inr [where g = ?g, OF each] blocks)
  have same: "create_augmented_prompt other_query other_retrieved_chunks topk_indices chunks =
      create_augmented_prompt query retrieved_chunks topk_indices chunks"
    by (simp add: create_augmented_prompt_def)
  show ?thesis using closed same by (rule conjI)
qed

theorem create_augmented_prompt_blocks_witness:
  "create_augmented_prompt ''Darcy'' [(''Mr Darcy'', 2 :: int), (''a'', 1)] [1, 0] [''a'', ''Mr Darcy''] =
     Inr (''Use the following to answer questions.'' @ [newline]
       @ join [newline]
           (map (\<lambda>i. knowledge_block (int i) ([''a'', ''Mr Darcy''] ! nat ([1, 0] ! i)))
              [0..<length [1, 0 :: int]])
       @ [newline])
   \<and> create_augmented_prompt ''Alice'' ([] :: (string \<times> int) list) [1, 0] [''a'', ''Mr Darcy''] =
       create_augmented_prompt ''Darcy'' [(''Mr Darcy'', 2 :: int), (''a'', 1)] [1, 0] [''a'', ''Mr Darcy'']"
proof -
  have h: "\<forall>idx\<in>set [1, 0]. 0 \<le> idx \<and> idx < int (length [''a'', ''Mr Darcy''])" by simp
  show ?thesis
    by (rule create_augmented_prompt_blocks [OF h])
qed

end
